theory Spec2Isabelle
  imports Main "HOL-Library.Sublist" "HOL-Library.Multiset"
begin

section \<open>Python values used by \<open>youtube_extraction.py\<close>\<close>

text \<open>
  The script is one class, \<open>YouTubeCommentsKeywordExtractor\<close>. Its methods are embedded
  below as HOL functions. Exceptions are values: a method that can raise returns
  \<open>py_error + 'a\<close>, with \<open>Inl\<close> the exception. Python's \<open>None\<close> is \<open>None\<close> of an
  option type. Strings are lists of characters, one \<open>char\<close> per character of the
  Python string, so the model speaks about strings whose characters fit a \<open>char\<close>.
\<close>

datatype py_error = IndexError | ValueError | OverflowError | KeyError

text \<open>\<open>xs[i]\<close> for a non-negative literal index: out of range raises \<open>IndexError\<close>.\<close>

definition getitem :: "'a list \<Rightarrow> nat \<Rightarrow> py_error + 'a" where
  "getitem xs i = (if i < length xs then Inr (xs ! i) else Inl IndexError)"

text \<open>
  \<open>s.split(sep)\<close> for a non-empty separator: scanning from the left, every
  non-overlapping occurrence of \<open>sep\<close> cuts the string; the result always has at least one
  piece. (Python raises \<open>ValueError\<close> on an empty separator; the script only passes the
  literals \<open>'v='\<close>, \<open>'&'\<close>, \<open>'youtu.be/'\<close> and \<open>'?'\<close>, and for an empty separator this
  function does not cut at all.) The test \<open>sub in s\<close> on strings is \<^const>\<open>sublist\<close>.
\<close>

function str_split :: "string \<Rightarrow> string \<Rightarrow> string list" where
  "str_split sep [] = [[]]"
| "str_split sep (c # cs) =
     (if sep \<noteq> [] \<and> prefix sep (c # cs)
      then [] # str_split sep (drop (length sep) (c # cs))
      else (case str_split sep cs of
              [] \<Rightarrow> [[c]]
            | p # ps \<Rightarrow> (c # p) # ps))"
  by pat_completeness auto
termination
  by (relation "measure (\<lambda>(sep, s). length s)") (auto simp: neq_Nil_conv)

section \<open>Identifier Resolver: \<open>extract_video_id\<close>\<close>

text \<open>
  \<^verbatim>\<open>
  if 'youtube.com/watch?v=' in url:
      return url.split('v=')[1].split('&')[0]
  elif 'youtu.be/' in url:
      return url.split('youtu.be/')[1].split('?')[0]
  elif len(url) == 11:
      return url
  else:
      return None
  \<close>
\<close>

definition extract_video_id :: "string \<Rightarrow> py_error + string option" where
  "extract_video_id url =
     (if sublist ''youtube.com/watch?v='' url then
        (case getitem (str_split ''v='' url) 1 of
           Inl e \<Rightarrow> Inl e
         | Inr s \<Rightarrow> (case getitem (str_split ''&'' s) 0 of
                       Inl e \<Rightarrow> Inl e
                     | Inr r \<Rightarrow> Inr (Some r)))
      else if sublist ''youtu.be/'' url then
        (case getitem (str_split ''youtu.be/'' url) 1 of
           Inl e \<Rightarrow> Inl e
         | Inr s \<Rightarrow> (case getitem (str_split ''?'' s) 0 of
                       Inl e \<Rightarrow> Inl e
                     | Inr r \<Rightarrow> Inr (Some r)))
      else if length url = 11 then Inr (Some url)
      else Inr None)"


section \<open>Date Range Builder: \<open>get_date_range_iso\<close>\<close>

text \<open>
  Truthiness as Python's \<open>if x:\<close> reads it: \<open>None\<close>, the empty string and the integer
  \<open>0\<close> are false.
\<close>

definition truthy_str :: "string option \<Rightarrow> bool" where
  "truthy_str s = (case s of None \<Rightarrow> False | Some t \<Rightarrow> t \<noteq> [])"

definition truthy_int :: "int option \<Rightarrow> bool" where
  "truthy_int n = (case n of None \<Rightarrow> False | Some k \<Rightarrow> k \<noteq> 0)"

text \<open>
  A \<open>datetime\<close> is its date, as the proleptic Gregorian ordinal of \<open>date.toordinal()\<close>
  (day 1 is 0001-01-01, day 3652059 is 9999-12-31), and its time of day.
\<close>

record datetime =
  toordinal :: int
  hour :: nat
  minute :: nat
  second :: nat
  microsecond :: nat

text \<open>Year, month and day of an ordinal (the civil calendar, 400-year eras of 146097 days).\<close>

definition ymd :: "int \<Rightarrow> int \<times> int \<times> int" where
  "ymd n =
     (let z = n + 305;
          era = z div 146097;
          doe = z - era * 146097;
          yoe = (doe - doe div 1460 + doe div 36524 - doe div 146096) div 365;
          doy = doe - (365 * yoe + yoe div 4 - yoe div 100);
          mp = (5 * doy + 2) div 153;
          d = doy - (153 * mp + 2) div 5 + 1;
          m = (if mp < 10 then mp + 3 else mp - 9);
          y = yoe + era * 400 + (if m \<le> 2 then 1 else 0)
      in (y, m, d))"

definition digit :: "int \<Rightarrow> char" where
  "digit k = ''0123456789'' ! nat (k mod 10)"

definition digits2 :: "int \<Rightarrow> string" where
  "digits2 k = [digit (k div 10), digit k]"

definition digits4 :: "int \<Rightarrow> string" where
  "digits4 k = [digit (k div 1000), digit (k div 100), digit (k div 10), digit k]"

text \<open>The decimal digits of a natural number, without padding.\<close>

fun decimal :: "nat \<Rightarrow> string" where
  "decimal n = (if n < 10 then [digit (int n)] else decimal (n div 10) @ [digit (int n)])"

declare decimal.simps [simp del]

text \<open>
  \<open>dt.strftime(fmt)\<close> for the directives the script uses: \<open>%m %d %H %M %S\<close> are two
  digits, zero padded; \<open>%Y\<close> is the year in decimal, which the C library under CPython
  prints without padding (year 931 is \<open>931\<close>), so it has four digits from year 1000 on.
  Every other character of the format is copied.
\<close>

definition directive :: "char \<Rightarrow> datetime \<Rightarrow> string" where
  "directive d dt =
     (if d = CHR ''Y'' then decimal (nat (fst (ymd (toordinal dt))))
      else if d = CHR ''m'' then digits2 (fst (snd (ymd (toordinal dt))))
      else if d = CHR ''d'' then digits2 (snd (snd (ymd (toordinal dt))))
      else if d = CHR ''H'' then digits2 (int (hour dt))
      else if d = CHR ''M'' then digits2 (int (minute dt))
      else if d = CHR ''S'' then digits2 (int (second dt))
      else [CHR ''%'', d])"

fun strftime :: "datetime \<Rightarrow> string \<Rightarrow> string" where
  "strftime dt [] = []"
| "strftime dt [c] = [c]"
| "strftime dt (c # d # fmt) =
     (if c = CHR ''%'' then directive d dt @ strftime dt fmt
      else c # strftime dt (d # fmt))"

text \<open>
  \<open>timedelta(days=n)\<close> raises \<open>OverflowError\<close> beyond 999999999 days, and
  \<open>now - timedelta(days=n)\<close> raises it when the date leaves years 1 to 9999. Only the
  date moves; the time of day is kept.
\<close>

definition timedelta :: "int \<Rightarrow> py_error + int" where
  "timedelta days = (if \<bar>days\<bar> \<le> 999999999 then Inr days else Inl OverflowError)"

definition datetime_sub :: "datetime \<Rightarrow> int \<Rightarrow> py_error + datetime" where
  "datetime_sub dt days =
     (if 1 \<le> toordinal dt - days \<and> toordinal dt - days \<le> 3652059
      then Inr (dt\<lparr>toordinal := toordinal dt - days\<rparr>)
      else Inl OverflowError)"

text \<open>
  \<^verbatim>\<open>
  now = datetime.now()
  if start_date:
      published_after = datetime.strptime(start_date, '%Y-%m-%d').strftime('%Y-%m-%dT00:00:00Z')
  elif days_ago_start:
      published_after = (now - timedelta(days=days_ago_start)).strftime('%Y-%m-%dT00:00:00Z')
  else:
      published_after = None
  if end_date:
      published_before = datetime.strptime(end_date, '%Y-%m-%d').strftime('%Y-%m-%dT23:59:59Z')
  elif days_ago_end:
      published_before = (now - timedelta(days=days_ago_end)).strftime('%Y-%m-%dT23:59:59Z')
  else:
      published_before = None
  return published_after, published_before
  \<close>
  The clock reading \<open>now\<close> and the library's parser \<open>datetime.strptime\<close> (which raises
  \<open>ValueError\<close> on a string that does not match the format) are parameters.
\<close>

definition get_date_range_iso ::
  "(string \<Rightarrow> string \<Rightarrow> py_error + datetime) \<Rightarrow> datetime \<Rightarrow>
   int option \<Rightarrow> int option \<Rightarrow> string option \<Rightarrow> string option \<Rightarrow>
   py_error + (string option \<times> string option)" where
  "get_date_range_iso strptime now days_ago_start days_ago_end start_date end_date =
     (case
        (if truthy_str start_date then
           (case strptime (the start_date) ''%Y-%m-%d'' of
              Inl e \<Rightarrow> Inl e
            | Inr d \<Rightarrow> Inr (Some (strftime d ''%Y-%m-%dT00:00:00Z'')))
         else if truthy_int days_ago_start then
           (case timedelta (the days_ago_start) of
              Inl e \<Rightarrow> Inl e
            | Inr td \<Rightarrow>
                (case datetime_sub now td of
                   Inl e \<Rightarrow> Inl e
                 | Inr d \<Rightarrow> Inr (Some (strftime d ''%Y-%m-%dT00:00:00Z''))))
         else Inr None)
      of
        Inl e \<Rightarrow> Inl e
      | Inr published_after \<Rightarrow>
          (case
             (if truthy_str end_date then
                (case strptime (the end_date) ''%Y-%m-%d'' of
                   Inl e \<Rightarrow> Inl e
                 | Inr d \<Rightarrow> Inr (Some (strftime d ''%Y-%m-%dT23:59:59Z'')))
              else if truthy_int days_ago_end then
                (case timedelta (the days_ago_end) of
                   Inl e \<Rightarrow> Inl e
                 | Inr td \<Rightarrow>
                     (case datetime_sub now td of
                        Inl e \<Rightarrow> Inl e
                      | Inr d \<Rightarrow> Inr (Some (strftime d ''%Y-%m-%dT23:59:59Z''))))
              else Inr None)
           of
             Inl e \<Rightarrow> Inl e
           | Inr published_before \<Rightarrow> Inr (published_after, published_before)))"

section \<open>The remote API\<close>

text \<open>
  The client object \<open>self.youtube\<close> is a record of its three endpoints. The platform is
  free to answer each request as it likes, so an endpoint is a function of the number of
  the loop iteration that makes the request and of the request's parameters; it answers
  with a response or raises \<open>HttpError\<close>. An \<open>HttpError\<close> carries what the handler's
  \<open>json.loads(e.content.decode())['error']['errors'][0]['reason']\<close> evaluates to: a reason
  code, or the exception that expression raises on a body of another shape.
\<close>

datatype http_error = HttpError "py_error + string"

record search_item =
  videoId :: string
  snippet_title :: string
  channelTitle :: string
  channelId :: string
  publishedAt :: string
  snippet_description :: string
  thumbnail_url :: string

record search_response =
  items :: "search_item list"
  nextPageToken :: "string option"

record search_params =
  part :: string
  q :: string
  search_type :: string
  maxResults :: int
  order :: string
  pageToken :: "string option"
  publishedAfter :: "string option"
  publishedBefore :: "string option"

record statistics =
  viewCount :: "int option"
  likeCount :: "int option"
  commentCount :: "int option"

record video_resource =
  resource_id :: string
  resource_statistics :: "statistics option"

record comment_thread =
  topLevelComment_id :: string
  authorDisplayName :: string
  authorChannelId_value :: "string option"
  textDisplay :: string
  comment_likeCount :: int
  comment_publishedAt :: string
  updatedAt :: string
  totalReplyCount :: int

record thread_response =
  thread_items :: "comment_thread list"
  thread_nextPageToken :: "string option"

record thread_params =
  thread_part :: string
  thread_videoId :: string
  thread_maxResults :: int
  thread_order :: string
  thread_pageToken :: "string option"

record youtube =
  search_list :: "nat \<Rightarrow> search_params \<Rightarrow> http_error + search_response"
  videos_list :: "nat \<Rightarrow> string \<Rightarrow> string \<Rightarrow> http_error + video_resource list"
  commentThreads_list :: "nat \<Rightarrow> thread_params \<Rightarrow> http_error + thread_response"

text \<open>
  \<open>xs.sort(key=f, reverse=True)\<close>: the list is reversed, sorted stably by the key and
  reversed again, so equal keys keep their order.
\<close>

definition sort_reverse :: "('a \<Rightarrow> int) \<Rightarrow> 'a list \<Rightarrow> 'a list" where
  "sort_reverse key xs = rev (sort_key key (rev xs))"



section \<open>Video Search Aggregator: \<open>search_videos_by_keyword\<close>\<close>

record video_info =
  video_id :: string
  title :: string
  channel :: string
  channel_id :: string
  published_at :: string
  description :: string
  thumbnail :: string
  view_count :: int
  like_count :: int
  comment_count :: int








section \<open>Comment Ranker: \<open>get_top_comments_by_likes\<close>\<close>

text \<open>The method's parameter \<open>video_id\<close> is written \<open>v_id\<close>.\<close>

record comment_data =
  c_video_id :: string
  comment_id :: string
  author :: string
  author_channel_id :: string
  comment_text :: string
  c_like_count :: int
  c_published_at :: string
  updated_at :: string
  reply_count :: int

definition comment_data_of :: "string \<Rightarrow> comment_thread \<Rightarrow> comment_data" where
  "comment_data_of v_id item =
     \<lparr> c_video_id = v_id,
       comment_id = topLevelComment_id item,
       author = authorDisplayName item,
       author_channel_id = (case authorChannelId_value item of None \<Rightarrow> ''N/A'' | Some v \<Rightarrow> v),
       comment_text = textDisplay item,
       c_like_count = comment_likeCount item,
       c_published_at = comment_publishedAt item,
       updated_at = updatedAt item,
       reply_count = totalReplyCount item \<rparr>"

text \<open>\<open>fetch_limit = min(max_comments * 5, 100)\<close>\<close>

definition fetch_limit :: "int \<Rightarrow> int" where
  "fetch_limit max_comments = min (max_comments * 5) 100"

text \<open>
  One pass through the body of \<open>while total_fetched < fetch_limit:\<close>, up to the
  assignment of \<open>next_page_token\<close>.
\<close>

definition comment_page ::
  "youtube \<Rightarrow> string \<Rightarrow> int \<Rightarrow> nat \<Rightarrow> comment_data list \<Rightarrow> int \<Rightarrow> string option \<Rightarrow>
   http_error + (comment_data list \<times> int \<times> string option)" where
  "comment_page yt v_id limit k comments total_fetched next_page_token =
     (let remaining = limit - total_fetched;
          batch_size = min 100 remaining;
          params = \<lparr> thread_part = ''snippet,replies'', thread_videoId = v_id,
                     thread_maxResults = batch_size, thread_order = ''relevance'',
                     thread_pageToken = next_page_token \<rparr>
      in case commentThreads_list yt k params of
           Inl e \<Rightarrow> Inl e
         | Inr response \<Rightarrow>
             Inr (comments @ map (comment_data_of v_id) (thread_items response),
                  total_fetched + int (length (thread_items response)),
                  thread_nextPageToken response))"

text \<open>
  The \<open>while\<close> loop inside \<open>try\<close>: it leaves with the comments accumulated so far, and
  with the \<open>HttpError\<close> when a request raised one.
\<close>

partial_function (option) comment_loop ::
  "youtube \<Rightarrow> string \<Rightarrow> int \<Rightarrow> nat \<Rightarrow> comment_data list \<Rightarrow> int \<Rightarrow> string option \<Rightarrow>
   (comment_data list \<times> http_error option) option" where
  [code]: "comment_loop yt v_id limit k comments total_fetched next_page_token =
     (if total_fetched < limit then
        (case comment_page yt v_id limit k comments total_fetched next_page_token of
           Inl e \<Rightarrow> Some (comments, Some e)
         | Inr (comments', total', token') \<Rightarrow>
             if truthy_str token'
             then comment_loop yt v_id limit (Suc k) comments' total' token'
             else Some (comments', None))
      else Some (comments, None))"

text \<open>
  The handler reads the reason code out of the error's body, which can itself raise; its
  three branches only print. \<open>comments[:max_comments]\<close> is Python's slice: a negative
  bound counts from the end.
\<close>

definition error_reason :: "http_error \<Rightarrow> py_error + string" where
  "error_reason e = (case e of HttpError r \<Rightarrow> r)"

definition slice_to :: "'a list \<Rightarrow> int \<Rightarrow> 'a list" where
  "slice_to xs n = (if 0 \<le> n then take (nat n) xs else take (nat (int (length xs) + n)) xs)"

definition get_top_comments_by_likes ::
  "youtube \<Rightarrow> string \<Rightarrow> int \<Rightarrow> (py_error + comment_data list) option" where
  "get_top_comments_by_likes yt v_id max_comments =
     (case comment_loop yt v_id (fetch_limit max_comments) 0 [] 0 None of
        None \<Rightarrow> None
      | Some (comments, raised) \<Rightarrow>
          (case raised of
             None \<Rightarrow> Some (Inr (slice_to (sort_reverse c_like_count comments) max_comments))
           | Some e \<Rightarrow>
               (case error_reason e of
                  Inl x \<Rightarrow> Some (Inl x)
                | Inr reason \<Rightarrow>
                    Some (Inr (slice_to (sort_reverse c_like_count comments) max_comments)))))"

text \<open>
  The loop's variables after \<open>n\<close> passes that each fetched a page and found a next page
  token; \<open>None\<close> when the loop has left before.
\<close>

fun comment_state_after ::
  "youtube \<Rightarrow> string \<Rightarrow> int \<Rightarrow> nat \<Rightarrow> (comment_data list \<times> int \<times> string option) option" where
  "comment_state_after yt v_id limit 0 = Some ([], 0, None)"
| "comment_state_after yt v_id limit (Suc n) =
     (case comment_state_after yt v_id limit n of
        None \<Rightarrow> None
      | Some (comments, total_fetched, token) \<Rightarrow>
          if total_fetched < limit then
            (case comment_page yt v_id limit n comments total_fetched token of
               Inl e \<Rightarrow> None
             | Inr (comments', total', token') \<Rightarrow>
                 if truthy_str token' then Some (comments', total', token') else None)
          else None)"


section \<open>Report Exporter: \<open>save_to_excel\<close>\<close>

record video_result =
  video_info :: video_info
  top_comments :: "comment_data list"
  comments_extracted :: int

record extraction_info =
  total_videos_processed :: int
  videos_with_comments :: int
  extraction_date :: string
  top_comments_per_video :: int

record results =
  extraction_info :: extraction_info
  videos :: "video_result list"

record detail_row =
  Video_Rank :: int
  Video_ID :: string
  Video_Title :: string
  Channel_Name :: string
  Video_Views :: int
  Video_Likes :: int
  Video_Published :: string
  Comment_Rank :: int
  Comment_ID :: string
  Comment_Author :: string
  Comment_Text :: string
  Comment_Likes :: int
  Comment_Published :: string
  Reply_Count :: int

record overview_row =
  Rank :: int
  Overview_Video_ID :: string
  Title :: string
  Channel :: string
  Views :: int
  Likes :: int
  Comments_Count :: int
  Published :: string
  Comments_Extracted :: int

datatype cell = IntCell int | StrCell string

datatype sheet =
  Top_Comments "detail_row list"
| Summary "(string \<times> cell) list"
| Video_Overview "overview_row list"

type_synonym workbook = "sheet list"

text \<open>
  \<open>xs.index(x)\<close>: the position of the first element equal to \<open>x\<close>; \<open>ValueError\<close> when
  there is none. Dictionaries are equal when their entries are.
\<close>

fun list_index :: "'a list \<Rightarrow> 'a \<Rightarrow> py_error + nat" where
  "list_index [] x = Inl ValueError"
| "list_index (y # ys) x =
     (if y = x then Inr 0
      else (case list_index ys x of Inl e \<Rightarrow> Inl e | Inr i \<Rightarrow> Inr (Suc i)))"

text \<open>A \<open>for\<close> loop that appends one value per element and stops at the first exception.\<close>

fun for_each :: "('a \<Rightarrow> py_error + 'b) \<Rightarrow> 'a list \<Rightarrow> py_error + 'b list" where
  "for_each f [] = Inr []"
| "for_each f (x # xs) =
     (case f x of
        Inl e \<Rightarrow> Inl e
      | Inr y \<Rightarrow> (case for_each f xs of Inl e \<Rightarrow> Inl e | Inr ys \<Rightarrow> Inr (y # ys)))"

text \<open>\<open>enumerate(xs, start)\<close>\<close>

fun enumerate_from :: "int \<Rightarrow> 'a list \<Rightarrow> (int \<times> 'a) list" where
  "enumerate_from i [] = []"
| "enumerate_from i (x # xs) = (i, x) # enumerate_from (i + 1) xs"

text \<open>
  The rows one video contributes to \<open>excel_data\<close>: the inner loop
  \<open>for i, comment in enumerate(video['top_comments'], 1)\<close>, each row with
  \<open>'Video_Rank': results['videos'].index(video) + 1\<close>.
\<close>

definition video_rows :: "results \<Rightarrow> video_result \<Rightarrow> py_error + detail_row list" where
  "video_rows res video =
     for_each
       (\<lambda>(i, comment).
          case list_index (videos res) video of
            Inl e \<Rightarrow> Inl e
          | Inr pos \<Rightarrow>
              Inr \<lparr> Video_Rank = int pos + 1,
                    Video_ID = video_id (video_info video),
                    Video_Title = title (video_info video),
                    Channel_Name = channel (video_info video),
                    Video_Views = view_count (video_info video),
                    Video_Likes = like_count (video_info video),
                    Video_Published = published_at (video_info video),
                    Comment_Rank = i,
                    Comment_ID = comment_id comment,
                    Comment_Author = author comment,
                    Comment_Text = comment_text comment,
                    Comment_Likes = c_like_count comment,
                    Comment_Published = c_published_at comment,
                    Reply_Count = reply_count comment \<rparr>)
       (enumerate_from 1 (top_comments video))"

definition excel_data :: "results \<Rightarrow> py_error + detail_row list" where
  "excel_data res =
     (case for_each (video_rows res) (videos res) of
        Inl e \<Rightarrow> Inl e
      | Inr rows \<Rightarrow> Inr (concat rows))"

definition video_overview :: "results \<Rightarrow> py_error + overview_row list" where
  "video_overview res =
     for_each
       (\<lambda>video.
          case list_index (videos res) video of
            Inl e \<Rightarrow> Inl e
          | Inr pos \<Rightarrow>
              Inr \<lparr> Rank = int pos + 1,
                    Overview_Video_ID = video_id (video_info video),
                    Title = title (video_info video),
                    Channel = channel (video_info video),
                    Views = view_count (video_info video),
                    Likes = like_count (video_info video),
                    Comments_Count = comment_count (video_info video),
                    Published = published_at (video_info video),
                    Comments_Extracted = comments_extracted video \<rparr>)
       (videos res)"

definition summary_data :: "results \<Rightarrow> detail_row list \<Rightarrow> (string \<times> cell) list" where
  "summary_data res rows =
     [(''Total Videos Processed'', IntCell (total_videos_processed (extraction_info res))),
      (''Videos with Comments'', IntCell (videos_with_comments (extraction_info res))),
      (''Total Comments Extracted'', IntCell (int (length rows))),
      (''Extraction Date'', StrCell (extraction_date (extraction_info res))),
      (''Comments per Video'', IntCell (top_comments_per_video (extraction_info res)))]"

text \<open>
  \<^verbatim>\<open>
  if not filename:
      timestamp = datetime.now().strftime("%Y%m%d_%H%M%S")
      filename = f"youtube_top_comments_{timestamp}.xlsx"
  elif not filename.endswith('.xlsx'):
      filename += '.xlsx'
  \<close>
\<close>

definition excel_filename :: "datetime \<Rightarrow> string option \<Rightarrow> string" where
  "excel_filename now filename =
     (if \<not> truthy_str filename
      then ''youtube_top_comments_'' @ strftime now ''%Y%m%d_%H%M%S'' @ ''.xlsx''
      else if \<not> suffix ''.xlsx'' (the filename) then the filename @ ''.xlsx''
      else the filename)"

text \<open>
  The files of the current folder are a map from path to workbook; the method returns
  its value (\<open>None\<close> for "no data") and the files afterwards. The spreadsheet writer is
  taken to accept every workbook; it writes the three sheets in the order
  \<open>Top_Comments\<close>, \<open>Summary\<close>, \<open>Video_Overview\<close>.
\<close>

definition save_to_excel ::
  "(string \<rightharpoonup> workbook) \<Rightarrow> datetime \<Rightarrow> results \<Rightarrow> string option \<Rightarrow>
   py_error + (string option \<times> (string \<rightharpoonup> workbook))" where
  "save_to_excel files now res filename =
     (let path = excel_filename now filename in
      case excel_data res of
        Inl e \<Rightarrow> Inl e
      | Inr rows \<Rightarrow>
          if rows \<noteq> [] then
            (case video_overview res of
               Inl e \<Rightarrow> Inl e
             | Inr overview \<Rightarrow>
                 Inr (Some path,
                      files(path \<mapsto> [Top_Comments rows, Summary (summary_data res rows),
                                       Video_Overview overview])))
          else Inr (None, files))"

section \<open>Example inputs\<close>

text \<open>Concrete inputs on which the theorems below are instantiated and the code is run.\<close>

text \<open>The ISO 8601 calendar date \<open>YYYY-MM-DD\<close> of an ordinal, the year on four digits.\<close>

definition iso_date :: "int \<Rightarrow> string" where
  "iso_date n =
     digits4 (fst (ymd n)) @ ''-'' @ digits2 (fst (snd (ymd n))) @ ''-'' @ digits2 (snd (snd (ymd n)))"

definition example_now :: datetime where
  "example_now = \<lparr> toordinal = 739924, hour = 9, minute = 5, second = 7, microsecond = 0 \<rparr>"

definition no_strptime :: "string \<Rightarrow> string \<Rightarrow> py_error + datetime" where
  "no_strptime s fmt = Inl ValueError"

definition example_item :: "string \<Rightarrow> search_item" where
  "example_item v =
     \<lparr> videoId = v, snippet_title = ''title'', channelTitle = ''channel'', channelId = ''UC1'',
       publishedAt = ''2026-01-01T00:00:00Z'', snippet_description = ''about'',
       thumbnail_url = ''https://i.ytimg.com/default.jpg'' \<rparr>"

definition example_resource :: "string \<Rightarrow> int \<Rightarrow> video_resource" where
  "example_resource v n =
     \<lparr> resource_id = v,
       resource_statistics = Some \<lparr> viewCount = Some n, likeCount = Some 1, commentCount = None \<rparr> \<rparr>"

definition example_thread :: "string \<Rightarrow> int \<Rightarrow> comment_thread" where
  "example_thread c n =
     \<lparr> topLevelComment_id = c, authorDisplayName = ''author'', authorChannelId_value = None,
       textDisplay = ''text'', comment_likeCount = n,
       comment_publishedAt = ''2026-01-02T00:00:00Z'', updatedAt = ''2026-01-02T00:00:00Z'',
       totalReplyCount = 0 \<rparr>"



text \<open>
  A platform that never returns more items than \<open>maxResults\<close>: a single page of at most
  three videos, and a single page of at most three comment threads.
\<close>

definition obedient_youtube :: youtube where
  "obedient_youtube =
     \<lparr> search_list = (\<lambda>k p.
         Inr \<lparr> items = take (nat (maxResults p))
                         [example_item ''a'', example_item ''b'', example_item ''c''],
               nextPageToken = None \<rparr>),
       videos_list = (\<lambda>k p ids. Inr [example_resource ''a'' 5, example_resource ''b'' 9]),
       commentThreads_list = (\<lambda>k p.
         Inr \<lparr> thread_items = take (nat (thread_maxResults p))
                                [example_thread ''c1'' 3, example_thread ''c2'' 7,
                                 example_thread ''c3'' 5],
               thread_nextPageToken = None \<rparr>) \<rparr>"

definition example_video :: "string \<Rightarrow> int \<Rightarrow> video_info" where
  "example_video v n =
     \<lparr> video_id = v, title = ''title'', channel = ''channel'', channel_id = ''UC1'',
       published_at = ''2026-01-01T00:00:00Z'', description = ''about'',
       thumbnail = ''https://i.ytimg.com/default.jpg'',
       view_count = n, like_count = 1, comment_count = 0 \<rparr>"

definition example_result :: "string \<Rightarrow> comment_data list \<Rightarrow> video_result" where
  "example_result v cs =
     \<lparr> video_info = example_video v 5, top_comments = cs, comments_extracted = int (length cs) \<rparr>"

definition example_report :: "video_result list \<Rightarrow> results" where
  "example_report vs =
     \<lparr> extraction_info =
         \<lparr> total_videos_processed = int (length vs), videos_with_comments = int (length vs),
           extraction_date = ''2026-11-04 09:05:07'', top_comments_per_video = 10 \<rparr>,
       videos = vs \<rparr>"

section \<open>Properties of the Identifier Resolver\<close>

lemma str_split_not_Nil: "str_split sep s \<noteq> []"
  by (induction sep s rule: str_split.induct) (auto split: list.splits)

lemma getitem_0_split: "getitem (str_split sep s) 0 = Inr (hd (str_split sep s))"
  using str_split_not_Nil [of sep s] by (cases "str_split sep s") (auto simp: getitem_def)

lemma getitem_Cons_1: "getitem (x # ys) 1 = getitem ys 0"
  by (simp add: getitem_def)

lemma str_split_at_sep:
  "sep \<noteq> [] \<Longrightarrow> str_split sep (sep @ t) = [] # str_split sep t"
  by (cases sep) auto

text \<open>Where no occurrence of the separator starts among the first \<open>n\<close> positions, the first
  piece begins with those \<open>n\<close> characters.\<close>

lemma str_split_skip:
  "\<forall>i<n. \<not> prefix sep (drop i s) \<Longrightarrow> n \<le> length s \<Longrightarrow>
   str_split sep s = (take n s @ hd (str_split sep (drop n s))) # tl (str_split sep (drop n s))"
proof (induction n arbitrary: s)
  case 0
  then show ?case using str_split_not_Nil [of sep s] by simp
next
  case (Suc n)
  then obtain c cs where s: "s = c # cs" by (cases s) auto
  from Suc.prems(1) have np: "\<not> prefix sep (c # cs)"
    unfolding s by (metis drop0 zero_less_Suc)
  have "\<forall>i<n. \<not> prefix sep (drop i cs)"
  proof (intro allI impI)
    fix i assume "i < n"
    then have "\<not> prefix sep (drop (Suc i) s)" using Suc.prems(1) by simp
    then show "\<not> prefix sep (drop i cs)" by (simp add: s)
  qed
  moreover have "n \<le> length cs" using Suc.prems(2) by (simp add: s)
  ultimately have ih: "str_split sep cs =
      (take n cs @ hd (str_split sep (drop n cs))) # tl (str_split sep (drop n cs))"
    by (rule Suc.IH)
  have "str_split sep (c # cs) = (case str_split sep cs of [] \<Rightarrow> [[c]] | p # ps \<Rightarrow> (c # p) # ps)"
    using np by simp
  also have "\<dots> = (c # take n cs @ hd (str_split sep (drop n cs))) # tl (str_split sep (drop n cs))"
    by (subst ih) simp
  finally show ?case by (simp add: s)
qed

lemma no_occurrence_before:
  assumes "\<not> sublist sep (p @ butlast sep)" and "i < length p"
  shows "\<not> prefix sep (drop i (p @ sep @ t))"
proof
  assume pre: "prefix sep (drop i (p @ sep @ t))"
  have ne: "sep \<noteq> []" using assms(1) by auto
  have eq: "drop i (p @ sep @ t) = (drop i p @ butlast sep) @ (last sep # t)"
    using assms(2) ne by (simp add: append_butlast_last_id [symmetric] del: append_butlast_last_id)
  have len: "length sep \<le> length (drop i p @ butlast sep)"
    using assms(2) ne by (cases sep) auto
  have "prefix sep (drop i p @ butlast sep)"
    using pre len unfolding eq
    by (meson prefix_length_prefix prefixI)
  then obtain ss where "drop i p @ butlast sep = sep @ ss"
    by (auto simp: prefix_def)
  then have "p @ butlast sep = take i p @ sep @ ss"
    by (metis append_assoc append_take_drop_id)
  then have "sublist sep (p @ butlast sep)"
    by (metis sublist_appendI)
  then show False using assms(1) by contradiction
qed

lemma str_split_first:
  assumes "\<not> sublist sep (p @ butlast sep)"
  shows "str_split sep (p @ sep @ t) = p # str_split sep t"
proof -
  have ne: "sep \<noteq> []" using assms by auto
  have "\<forall>i<length p. \<not> prefix sep (drop i (p @ sep @ t))"
    using no_occurrence_before [OF assms] by blast
  from str_split_skip [OF this] have
    "str_split sep (p @ sep @ t) = (p @ hd (str_split sep (sep @ t))) # tl (str_split sep (sep @ t))"
    by simp
  then show ?thesis by (simp add: str_split_at_sep [OF ne])
qed

lemma str_split_none: "\<not> sublist sep s \<Longrightarrow> str_split sep s = [s]"
proof (induction s)
  case Nil
  then show ?case by simp
next
  case (Cons c cs)
  then show ?case by (auto simp: sublist_Cons_right)
qed

lemma prefix_before_char:
  assumes "prefix sep (v @ c # t)" and "c \<notin> set sep"
  shows "prefix sep v"
proof -
  from assms(1) consider "prefix sep v" | us where "sep = v @ us" "prefix us (c # t)"
    by (auto simp: prefix_append)
  then show ?thesis
  proof cases
    case 1 then show ?thesis .
  next
    case 2
    then show ?thesis using assms(2) by (cases us) auto
  qed
qed

lemma hd_str_split_upto_char:
  assumes "sep \<noteq> []" and "c \<notin> set sep" and "\<not> sublist sep v"
  shows "\<exists>u. hd (str_split sep (v @ c # t)) = v @ c # u"
  using assms(3)
proof (induction v)
  case Nil
  have "\<not> prefix sep (c # t)" using assms(1,2) by (cases sep) auto
  then show ?case using str_split_not_Nil [of sep t] by (auto split: list.splits)
next
  case (Cons x v)
  then have nsub: "\<not> sublist sep v" and npre: "\<not> prefix sep (x # v)"
    by (auto simp: sublist_Cons_right)
  have "\<not> prefix sep ((x # v) @ c # t)"
    using prefix_before_char [OF _ assms(2)] npre by blast
  moreover obtain u where "hd (str_split sep (v @ c # t)) = v @ c # u"
    using Cons.IH [OF nsub] by blast
  ultimately show ?case using str_split_not_Nil [of sep "v @ c # t"]
    by (auto split: list.splits)
qed

lemma str_split_char_first:
  assumes "c \<notin> set v"
  shows "str_split [c] (v @ c # t) = v # str_split [c] t"
proof -
  have "\<not> sublist [c] (v @ butlast [c])"
    using assms by (auto dest: set_mono_sublist)
  from str_split_first [OF this, of t] show ?thesis by simp
qed

text \<open>The text up to the first \<open>c\<close>, taken from the text up to the first \<open>sep\<close>.\<close>

lemma segment_upto:
  assumes "sep \<noteq> []" and "c \<notin> set sep" and "\<not> sublist sep v" and "c \<notin> set v"
    and "rest = [] \<or> hd rest = c"
  shows "hd (str_split [c] (hd (str_split sep (v @ rest)))) = v"
proof (cases rest)
  case Nil
  have "\<not> sublist [c] v" using assms(4) by (auto dest: set_mono_sublist)
  then show ?thesis using Nil assms(3) by (simp add: str_split_none)
next
  case (Cons r t)
  then have r: "rest = c # t" using assms(5) by simp
  obtain u where "hd (str_split sep (v @ c # t)) = v @ c # u"
    using hd_str_split_upto_char [OF assms(1-3)] by blast
  then show ?thesis by (simp add: r str_split_char_first [OF assms(4)])
qed

lemma sublist_append_last:
  assumes "xs \<noteq> []" and "last xs \<notin> set s" and "sublist xs (p @ s)"
  shows "sublist xs p"
proof -
  from assms(3) consider "sublist xs p" | "sublist xs s"
    | xs1 xs2 where "xs = xs1 @ xs2" "suffix xs1 p" "prefix xs2 s"
    by (auto simp: sublist_append)
  then show ?thesis
  proof cases
    case 1 then show ?thesis .
  next
    case 2
    then have "set xs \<subseteq> set s" by (rule set_mono_sublist)
    then show ?thesis using assms(1,2) last_in_set by blast
  next
    case 3
    show ?thesis
    proof (cases "xs2 = []")
      case True
      then show ?thesis using 3 by (auto intro: suffix_imp_sublist)
    next
      case False
      then have "last xs = last xs2" using 3(1) by simp
      moreover have "last xs2 \<in> set s"
        using False 3(3) last_in_set set_mono_prefix by blast
      ultimately show ?thesis using assms(2) by simp
    qed
  qed
qed

lemma extract_watch:
  assumes "\<not> sublist ''v='' p" and "\<not> sublist ''v='' vid" and "CHR ''&'' \<notin> set vid"
    and "rest = [] \<or> hd rest = CHR ''&''"
  shows "extract_video_id (p @ ''youtube.com/watch?v='' @ vid @ rest) = Inr (Some vid)"
proof -
  let ?A = "p @ ''youtube.com/watch?''"
  let ?url = "p @ ''youtube.com/watch?v='' @ vid @ rest"
  have url: "?url = ?A @ ''v='' @ (vid @ rest)" by simp
  have "\<not> sublist ''v='' (p @ ''youtube.com/watch?v'')"
    using sublist_append_last [of "''v=''" "''youtube.com/watch?v''" p] assms(1) by auto
  then have "\<not> sublist ''v='' (?A @ butlast ''v='')" by simp
  then have sp: "str_split ''v='' ?url = ?A # str_split ''v='' (vid @ rest)"
    unfolding url by (rule str_split_first)
  have seg: "hd (str_split ''&'' (hd (str_split ''v='' (vid @ rest)))) = vid"
    using assms(2,3,4) by (intro segment_upto) auto
  have it1: "getitem (str_split ''v='' ?url) 1 = Inr (hd (str_split ''v='' (vid @ rest)))"
    by (simp only: sp getitem_Cons_1 getitem_0_split)
  have "sublist ''youtube.com/watch?v='' ?url" by (rule sublist_appendI)
  then show ?thesis
    unfolding extract_video_id_def by (simp only: if_True it1 sum.case getitem_0_split seg)
qed

lemma extract_short:
  assumes "\<not> sublist ''youtube.com/watch?v='' (p @ ''youtu.be/'' @ vid @ rest)"
    and "\<not> sublist ''youtu.be/'' p"
    and "\<not> sublist ''youtu.be/'' vid" and "CHR ''?'' \<notin> set vid"
    and "rest = [] \<or> hd rest = CHR ''?''"
  shows "extract_video_id (p @ ''youtu.be/'' @ vid @ rest) = Inr (Some vid)"
proof -
  let ?url = "p @ ''youtu.be/'' @ vid @ rest"
  have "\<not> sublist ''youtu.be/'' (p @ ''youtu.be'')"
    using sublist_append_last [of "''youtu.be/''" "''youtu.be''" p] assms(2) by auto
  then have "\<not> sublist ''youtu.be/'' (p @ butlast ''youtu.be/'')" by simp
  then have sp: "str_split ''youtu.be/'' ?url = p # str_split ''youtu.be/'' (vid @ rest)"
    by (rule str_split_first)
  have seg: "hd (str_split ''?'' (hd (str_split ''youtu.be/'' (vid @ rest)))) = vid"
    using assms(3,4,5) by (intro segment_upto) auto
  have it1: "getitem (str_split ''youtu.be/'' ?url) 1 = Inr (hd (str_split ''youtu.be/'' (vid @ rest)))"
    by (simp only: sp getitem_Cons_1 getitem_0_split)
  have "sublist ''youtu.be/'' ?url" by (rule sublist_appendI)
  then show ?thesis
    unfolding extract_video_id_def
    by (simp only: assms(1) if_True if_False it1 sum.case getitem_0_split seg)
qed

lemma str_split_length_ge2:
  assumes "sep \<noteq> []" and "sublist sep s"
  shows "2 \<le> length (str_split sep s)"
  using assms(2)
proof (induction s)
  case Nil
  then show ?case using assms(1) by simp
next
  case (Cons c cs)
  show ?case
  proof (cases "prefix sep (c # cs)")
    case True
    then show ?thesis using assms(1) str_split_not_Nil [of sep "drop (length sep) (c # cs)"]
      by (cases "str_split sep (drop (length sep) (c # cs))") auto
  next
    case False
    then have "sublist sep cs" using Cons.prems by (simp add: sublist_Cons_right)
    then have "2 \<le> length (str_split sep cs)" by (rule Cons.IH)
    then show ?thesis using False by (auto split: list.splits)
  qed
qed

lemma sublist_marker_watch: "sublist ''youtube.com/watch?v='' s \<Longrightarrow> sublist ''v='' s"
proof -
  assume "sublist ''youtube.com/watch?v='' s"
  moreover have "sublist ''v='' ''youtube.com/watch?v=''"
    using sublist_append_leftI [of "''v=''" "''youtube.com/watch?''"] by simp
  ultimately show ?thesis by (rule sublist_order.order_trans [rotated])
qed

lemma extract_never_raises: "\<exists>r. extract_video_id url = Inr r"
proof -
  have a: "sublist ''youtube.com/watch?v='' url \<Longrightarrow> \<exists>s. getitem (str_split ''v='' url) 1 = Inr s"
    using str_split_length_ge2 [of "''v=''" url] sublist_marker_watch [of url]
    by (auto simp: getitem_def)
  have b: "sublist ''youtu.be/'' url \<Longrightarrow> \<exists>s. getitem (str_split ''youtu.be/'' url) 1 = Inr s"
    using str_split_length_ge2 [of "''youtu.be/''" url] by (auto simp: getitem_def)
  show ?thesis
    unfolding extract_video_id_def using a b
    by (auto simp: getitem_0_split split: sum.splits)
qed

text \<open>
  C9 (as stated). The claim promises the canonical 11-character identifier for the two URL
  forms and no match for every other string. The resolver cuts the URL without looking at
  what it cut: on a watch-URL whose \<open>v=\<close> value has three characters it returns those
  three characters, which is neither an 11-character identifier nor "no match".
\<close>

theorem extract_video_id_short_value:
  "extract_video_id ''https://www.youtube.com/watch?v=abc'' = Inr (Some ''abc'')
   \<and> length ''abc'' \<noteq> (11::nat)"
  by code_simp

text \<open>
  C9 (amended). The resolver never raises. On a watch-URL, written as
  \<open>p + 'youtube.com/watch?v=' + vid + rest\<close> where \<open>p\<close> contains no \<open>v=\<close>, \<open>vid\<close> contains
  neither \<open>v=\<close> nor \<open>&\<close>, and \<open>rest\<close> is empty or begins with \<open>&\<close>, it returns \<open>vid\<close>,
  whatever its length. On a short link without the watch marker, written as
  \<open>p + 'youtu.be/' + vid + rest\<close> where \<open>p\<close> does not contain \<open>youtu.be/\<close>, \<open>vid\<close> contains
  neither \<open>youtu.be/\<close> nor \<open>?\<close>, and \<open>rest\<close> is empty or begins with \<open>?\<close>, it returns
  \<open>vid\<close>, whatever its length. A string with neither marker is returned as it is when it
  has 11 characters, and gives no match otherwise.
\<close>

theorem extract_video_id_forms:
  "(\<exists>r. extract_video_id url = Inr r)
   \<and> (\<not> sublist ''v='' p \<and> \<not> sublist ''v='' vid \<and> CHR ''&'' \<notin> set vid
        \<and> (rest = [] \<or> hd rest = CHR ''&'')
      \<longrightarrow> extract_video_id (p @ ''youtube.com/watch?v='' @ vid @ rest) = Inr (Some vid))
   \<and> (\<not> sublist ''youtube.com/watch?v='' (p @ ''youtu.be/'' @ vid @ rest)
        \<and> \<not> sublist ''youtu.be/'' p
        \<and> \<not> sublist ''youtu.be/'' vid \<and> CHR ''?'' \<notin> set vid
        \<and> (rest = [] \<or> hd rest = CHR ''?'')
      \<longrightarrow> extract_video_id (p @ ''youtu.be/'' @ vid @ rest) = Inr (Some vid))
   \<and> (\<not> sublist ''youtube.com/watch?v='' url \<and> \<not> sublist ''youtu.be/'' url
      \<longrightarrow> extract_video_id url = Inr (if length url = 11 then Some url else None))"
proof (intro conjI impI)
  show "\<exists>r. extract_video_id url = Inr r" by (rule extract_never_raises)
next
  assume "\<not> sublist ''v='' p \<and> \<not> sublist ''v='' vid \<and> CHR ''&'' \<notin> set vid
        \<and> (rest = [] \<or> hd rest = CHR ''&'')"
  then show "extract_video_id (p @ ''youtube.com/watch?v='' @ vid @ rest) = Inr (Some vid)"
    by (intro extract_watch) simp_all
next
  assume "\<not> sublist ''youtube.com/watch?v='' (p @ ''youtu.be/'' @ vid @ rest)
        \<and> \<not> sublist ''youtu.be/'' p
        \<and> \<not> sublist ''youtu.be/'' vid \<and> CHR ''?'' \<notin> set vid
        \<and> (rest = [] \<or> hd rest = CHR ''?'')"
  then show "extract_video_id (p @ ''youtu.be/'' @ vid @ rest) = Inr (Some vid)"
    by (intro extract_short) simp_all
next
  assume "\<not> sublist ''youtube.com/watch?v='' url \<and> \<not> sublist ''youtu.be/'' url"
  then show "extract_video_id url = Inr (if length url = 11 then Some url else None)"
    by (simp add: extract_video_id_def)
qed

theorem extract_video_id_forms_witness:
  "extract_video_id ''https://www.youtube.com/watch?v=dQw4w9WgXcQ&t=1'' = Inr (Some ''dQw4w9WgXcQ'')
   \<and> extract_video_id ''https://www.youtube.com/watch?v=dQw4w9WgXcQ#t=10''
       = Inr (Some ''dQw4w9WgXcQ#t=10'')
   \<and> extract_video_id ''https://youtu.be/dQw4w9WgXcQ?t=1'' = Inr (Some ''dQw4w9WgXcQ'')
   \<and> extract_video_id ''https://youtu.be/dQw4w9WgXcQ/?t=1'' = Inr (Some ''dQw4w9WgXcQ/'')
   \<and> extract_video_id ''dQw4w9WgXcQ'' = Inr (Some ''dQw4w9WgXcQ'')
   \<and> extract_video_id ''not a video'' = Inr (Some ''not a video'')
   \<and> extract_video_id ''hello'' = Inr None"
proof -
  have w: "\<not> sublist ''v='' ''https://www.'' \<and> \<not> sublist ''v='' ''dQw4w9WgXcQ''
      \<and> CHR ''&'' \<notin> set ''dQw4w9WgXcQ'' \<and> (''&t=1'' = [] \<or> hd ''&t=1'' = CHR ''&'')"
    by code_simp
  have f: "\<not> sublist ''v='' ''https://www.'' \<and> \<not> sublist ''v='' ''dQw4w9WgXcQ#t=10''
      \<and> CHR ''&'' \<notin> set ''dQw4w9WgXcQ#t=10'' \<and> ([] = ([]::string) \<or> hd [] = CHR ''&'')"
    by code_simp
  have s: "\<not> sublist ''youtube.com/watch?v='' (''https://'' @ ''youtu.be/'' @ ''dQw4w9WgXcQ'' @ ''?t=1'')
      \<and> \<not> sublist ''youtu.be/'' ''https://''
      \<and> \<not> sublist ''youtu.be/'' ''dQw4w9WgXcQ'' \<and> CHR ''?'' \<notin> set ''dQw4w9WgXcQ''
      \<and> (''?t=1'' = [] \<or> hd ''?t=1'' = CHR ''?'')"
    by code_simp
  have t: "\<not> sublist ''youtube.com/watch?v='' (''https://'' @ ''youtu.be/'' @ ''dQw4w9WgXcQ/'' @ ''?t=1'')
      \<and> \<not> sublist ''youtu.be/'' ''https://''
      \<and> \<not> sublist ''youtu.be/'' ''dQw4w9WgXcQ/'' \<and> CHR ''?'' \<notin> set ''dQw4w9WgXcQ/''
      \<and> (''?t=1'' = [] \<or> hd ''?t=1'' = CHR ''?'')"
    by code_simp
  have b: "\<not> sublist ''youtube.com/watch?v='' ''dQw4w9WgXcQ'' \<and> \<not> sublist ''youtu.be/'' ''dQw4w9WgXcQ''"
    by code_simp
  have n: "\<not> sublist ''youtube.com/watch?v='' ''not a video'' \<and> \<not> sublist ''youtu.be/'' ''not a video''"
    by code_simp
  have h: "\<not> sublist ''youtube.com/watch?v='' ''hello'' \<and> \<not> sublist ''youtu.be/'' ''hello''"
    by code_simp
  have 1: "extract_video_id (''https://www.'' @ ''youtube.com/watch?v='' @ ''dQw4w9WgXcQ'' @ ''&t=1'')
      = Inr (Some ''dQw4w9WgXcQ'')"
    using extract_video_id_forms [where p = "''https://www.''"
        and vid = "''dQw4w9WgXcQ''" and rest = "''&t=1''"] w by blast
  have 2: "extract_video_id (''https://www.'' @ ''youtube.com/watch?v='' @ ''dQw4w9WgXcQ#t=10'' @ [])
      = Inr (Some ''dQw4w9WgXcQ#t=10'')"
    using extract_video_id_forms [where p = "''https://www.''"
        and vid = "''dQw4w9WgXcQ#t=10''" and rest = "[]"] f by blast
  have 3: "extract_video_id (''https://'' @ ''youtu.be/'' @ ''dQw4w9WgXcQ'' @ ''?t=1'') = Inr (Some ''dQw4w9WgXcQ'')"
    using extract_video_id_forms [where p = "''https://''"
        and vid = "''dQw4w9WgXcQ''" and rest = "''?t=1''"] s by blast
  have 4: "extract_video_id (''https://'' @ ''youtu.be/'' @ ''dQw4w9WgXcQ/'' @ ''?t=1'') = Inr (Some ''dQw4w9WgXcQ/'')"
    using extract_video_id_forms [where p = "''https://''"
        and vid = "''dQw4w9WgXcQ/''" and rest = "''?t=1''"] t by blast
  have 5: "extract_video_id ''dQw4w9WgXcQ'' = Inr (if length ''dQw4w9WgXcQ'' = 11 then Some ''dQw4w9WgXcQ'' else None)"
    using extract_video_id_forms [where url = "''dQw4w9WgXcQ''"] b by blast
  have 6: "extract_video_id ''not a video'' = Inr (if length ''not a video'' = 11 then Some ''not a video'' else None)"
    using extract_video_id_forms [where url = "''not a video''"] n by blast
  have 7: "extract_video_id ''hello'' = Inr (if length ''hello'' = 11 then Some ''hello'' else None)"
    using extract_video_id_forms [where url = "''hello''"] h by blast
  show ?thesis using 1 2 3 4 5 6 7 by simp
qed

text \<open>
  The conditions on the value are needed: \<open>split('v=')[1]\<close> ends at the next \<open>v=\<close> and
  \<open>split('youtu.be/')[1]\<close> at the next \<open>youtu.be/\<close>.
\<close>

lemma extract_video_id_cut_at_next_marker:
  "extract_video_id ''https://www.youtube.com/watch?v=av=b'' = Inr (Some ''a'')
   \<and> extract_video_id ''https://youtu.be/abyoutu.be/cd'' = Inr (Some ''ab'')"
  by code_simp

section \<open>Properties of the Date Range Builder\<close>

text \<open>From year 1000 to year 9999 the decimal year has four digits.\<close>

lemma decimal_four_digits:
  assumes "1000 \<le> y" and "y \<le> 9999"
  shows "decimal (nat y) = digits4 y"
proof -
  define k where "k = nat y"
  have k: "1000 \<le> k" "k \<le> 9999" using assms by (simp_all add: k_def)
  have a: "\<not> k < 10" "\<not> k div 10 < 10" "\<not> k div 10 div 10 < 10" "k div 10 div 10 div 10 < 10"
    using k by linarith+
  have b: "int (k div 10) = int k div 10" "int (k div 10 div 10) = int k div 100"
     "int (k div 10 div 10 div 10) = int k div 1000"
    by (simp_all add: div_mult2_eq [symmetric] del: div_mult2_eq)
  have "decimal k = digits4 (int k)"
    apply (subst decimal.simps)
    apply (subst decimal.simps)
    apply (subst decimal.simps)
    apply (subst decimal.simps)
    apply (simp only: a b if_True if_False digits4_def)
    apply simp
    done
  then show ?thesis using assms by (simp add: k_def)
qed

text \<open>
  Ordinal 364878 is 1000-01-01 and ordinal 3652059 is 9999-12-31: the days between them
  are the days of years 1000 to 9999.
\<close>

lemma year_bounds:
  assumes "364878 \<le> n" and "n \<le> 3652059"
  shows "1000 \<le> fst (ymd n) \<and> fst (ymd n) \<le> 9999"
proof -
  define z where "z = n + 305"
  define era where "era = z div 146097"
  define doe where "doe = z - era * 146097"
  define q where "q = doe div 1460"
  define r where "r = doe mod 1460"
  define a where "a = doe div 36524"
  define b where "b = doe div 146096"
  define num where "num = doe - q + a - b"
  define yoe where "yoe = num div 365"
  define doy where "doy = doe - (365 * yoe + yoe div 4 - yoe div 100)"
  define mp where "mp = (5 * doy + 2) div 153"
  define m where "m = (if mp < 10 then mp + 3 else mp - 9)"
  have y: "fst (ymd n) = yoe + era * 400 + (if m \<le> 2 then 1 else 0)"
    unfolding ymd_def Let_def z_def era_def doe_def yoe_def num_def q_def a_def b_def doy_def
      mp_def m_def
    by (simp only: fst_conv)
  have zb: "365183 \<le> z" "z \<le> 3652364" using assms by (simp_all add: z_def)
  have eb: "2 \<le> era" "era \<le> 24" using zb unfolding era_def by linarith+
  have db: "0 \<le> doe" "doe < 146097" unfolding doe_def era_def by linarith+
  have qr: "doe = 1460 * q + r" "0 \<le> r" "r < 1460" unfolding q_def r_def by simp_all
  have qb: "0 \<le> q" "q \<le> 100" using db unfolding q_def by linarith+
  have ab: "0 \<le> a" "a \<le> 4" using db unfolding a_def by linarith+
  have bb: "0 \<le> b" "b \<le> 1" using db unfolding b_def by linarith+
  have nb: "- 1 \<le> num" "num \<le> 146101" using db qb qr ab bb unfolding num_def by linarith+
  have yb: "- 1 \<le> yoe" "yoe \<le> 400" using nb unfolding yoe_def by linarith+
  have lo: "1000 \<le> yoe + era * 400 + (if m \<le> 2 then 1 else 0)"
  proof (cases "era = 2")
    case False
    then have "3 \<le> era" using eb by simp
    then show ?thesis using yb by simp
  next
    case True
    then have d: "72989 \<le> doe" using zb unfolding doe_def by simp
    have a1: "1 \<le> a" using d unfolding a_def by linarith
    have dq: "72940 \<le> doe - q"
    proof (cases "q \<le> 49")
      case True then show ?thesis using d by linarith
    next
      case False then show ?thesis using qr by linarith
    qed
    have "72635 \<le> num" using dq a1 bb unfolding num_def by linarith
    then have y199: "199 \<le> yoe" unfolding yoe_def by linarith
    show ?thesis
    proof (cases "yoe = 199")
      case False
      then show ?thesis using y199 True by simp
    next
      case e: True
      then have nu: "num \<le> 72999" unfolding yoe_def by linarith
      have du: "doe \<le> 73049"
      proof (rule ccontr)
        assume "\<not> doe \<le> 73049"
        then have d2: "73050 \<le> doe" by simp
        then have a2: "2 \<le> a" unfolding a_def by linarith
        have "73000 \<le> doe - q"
        proof (cases "q \<le> 50")
          case True then show ?thesis using d2 by linarith
        next
          case False then show ?thesis using qr by linarith
        qed
        then show False using a2 bb nu unfolding num_def by linarith
      qed
      have doy: "doy = doe - 72683" unfolding doy_def e by simp
      have "306 \<le> doy" "doy \<le> 366" using d du unfolding doy by simp_all
      then have "10 \<le> mp" "mp \<le> 11" unfolding mp_def by linarith+
      then have "m \<le> 2" unfolding m_def by simp
      then show ?thesis using e True by simp
    qed
  qed
  have hi: "yoe + era * 400 + (if m \<le> 2 then 1 else 0) \<le> 9999"
  proof (cases "era = 24")
    case False
    then have "era \<le> 23" using eb by simp
    then show ?thesis using yb by simp
  next
    case True
    then have d: "doe \<le> 146036" using zb unfolding doe_def by simp
    have b0: "b = 0" using d db unfolding b_def by simp
    have a3: "a \<le> 3" using d unfolding a_def by linarith
    have dq: "doe - q \<le> 145936"
    proof (cases "q \<le> 99")
      case True then show ?thesis using qr by linarith
    next
      case False
      then have "q = 100" using qb by simp
      then show ?thesis using d by linarith
    qed
    have "num \<le> 145939" using dq a3 b0 unfolding num_def by linarith
    then have y399: "yoe \<le> 399" unfolding yoe_def by linarith
    show ?thesis
    proof (cases "yoe = 399")
      case False
      then show ?thesis using y399 True by simp
    next
      case e: True
      then have nl: "145635 \<le> num" unfolding yoe_def by linarith
      then have l: "145632 \<le> doe - q" using a3 b0 unfolding num_def by linarith
      have dl: "145731 \<le> doe"
      proof (cases "q \<le> 98")
        case True then show ?thesis using l qr by linarith
      next
        case False
        then consider "q = 99" | "q = 100" using qb by linarith
        then show ?thesis using l qr by cases linarith+
      qed
      have doy: "doy = doe - 145731" unfolding doy_def e by simp
      have "0 \<le> doy" "doy \<le> 305" using d dl unfolding doy by simp_all
      then have "0 \<le> mp" "mp \<le> 9" unfolding mp_def by linarith+
      then have "\<not> m \<le> 2" unfolding m_def by simp
      then show ?thesis using e True by simp
    qed
  qed
  show ?thesis using lo hi unfolding y by simp
qed

lemma strftime_start_of_day:
  assumes "364878 \<le> toordinal d" and "toordinal d \<le> 3652059"
  shows "strftime d ''%Y-%m-%dT00:00:00Z'' = iso_date (toordinal d) @ ''T00:00:00Z''"
  using year_bounds [OF assms] by (simp add: directive_def iso_date_def decimal_four_digits)

lemma strftime_end_of_day:
  assumes "364878 \<le> toordinal d" and "toordinal d \<le> 3652059"
  shows "strftime d ''%Y-%m-%dT23:59:59Z'' = iso_date (toordinal d) @ ''T23:59:59Z''"
  using year_bounds [OF assms] by (simp add: directive_def iso_date_def decimal_four_digits)

lemma relative_side:
  assumes "0 < N" and "364878 \<le> toordinal now - N" and "toordinal now \<le> 3652059"
  shows "truthy_int (Some N)"
    and "timedelta N = Inr N"
    and "datetime_sub now N = Inr (now\<lparr>toordinal := toordinal now - N\<rparr>)"
    and "strftime (now\<lparr>toordinal := toordinal now - N\<rparr>) ''%Y-%m-%dT00:00:00Z''
           = iso_date (toordinal now - N) @ ''T00:00:00Z''"
    and "strftime (now\<lparr>toordinal := toordinal now - N\<rparr>) ''%Y-%m-%dT23:59:59Z''
           = iso_date (toordinal now - N) @ ''T23:59:59Z''"
proof -
  show "truthy_int (Some N)" using assms by (simp add: truthy_int_def)
  show "timedelta N = Inr N" using assms by (simp add: timedelta_def)
  show "datetime_sub now N = Inr (now\<lparr>toordinal := toordinal now - N\<rparr>)"
    using assms by (simp add: datetime_sub_def)
  have b: "364878 \<le> toordinal (now\<lparr>toordinal := toordinal now - N\<rparr>)"
    "toordinal (now\<lparr>toordinal := toordinal now - N\<rparr>) \<le> 3652059"
    using assms by simp_all
  from strftime_start_of_day [OF b]
  show "strftime (now\<lparr>toordinal := toordinal now - N\<rparr>) ''%Y-%m-%dT00:00:00Z''
           = iso_date (toordinal now - N) @ ''T00:00:00Z''"
    by (simp del: strftime.simps)
  from strftime_end_of_day [OF b]
  show "strftime (now\<lparr>toordinal := toordinal now - N\<rparr>) ''%Y-%m-%dT23:59:59Z''
           = iso_date (toordinal now - N) @ ''T23:59:59Z''"
    by (simp del: strftime.simps)
qed

text \<open>
  C6 (as stated). The claim gives both sides a \<open>T00:00:00Z\<close> timestamp. On the end side the
  code formats the day with \<open>T23:59:59Z\<close>, the end of that day, as it does for an absolute
  end date: one day before 2026-11-04 the end bound is \<open>2026-11-03T23:59:59Z\<close>.
\<close>

theorem relative_end_is_end_of_day:
  "get_date_range_iso no_strptime example_now None (Some 1) None None
     = Inr (None, Some ''2026-11-03T23:59:59Z'')
   \<and> ''2026-11-03T23:59:59Z'' \<noteq> iso_date (toordinal example_now - 1) @ ''T00:00:00Z''"
  by code_simp

text \<open>
  C6 (amended). For a positive offset \<open>N\<close> whose day, \<open>N\<close> days before the clock reading, is
  a date of years 1000 to 9999 (ordinals 364878 to 3652059), and no absolute date on that
  side: the start bound is that day, as \<open>YYYY-MM-DD\<close>, at \<open>T00:00:00Z\<close> and the end bound is
  that day at \<open>T23:59:59Z\<close>, whatever the time of day of the clock reading. With both sides
  relative the builder returns both bounds.
\<close>

theorem relative_offset_bounds:
  assumes "0 < N" and "364878 \<le> toordinal now - N" and "toordinal now \<le> 3652059"
  shows "(\<not> truthy_str start_date
          \<and> get_date_range_iso strptime now (Some N) days_ago_end start_date end_date = Inr (pa, pb)
          \<longrightarrow> pa = Some (iso_date (toordinal now - N) @ ''T00:00:00Z''))
       \<and> (\<not> truthy_str end_date
          \<and> get_date_range_iso strptime now days_ago_start (Some N) start_date end_date = Inr (pa, pb)
          \<longrightarrow> pb = Some (iso_date (toordinal now - N) @ ''T23:59:59Z''))
       \<and> get_date_range_iso strptime now (Some N) (Some N) None None
           = Inr (Some (iso_date (toordinal now - N) @ ''T00:00:00Z''),
                  Some (iso_date (toordinal now - N) @ ''T23:59:59Z''))"
proof (intro conjI impI)
  note side = relative_side [OF assms]
  {
    assume "\<not> truthy_str start_date
          \<and> get_date_range_iso strptime now (Some N) days_ago_end start_date end_date = Inr (pa, pb)"
    then show "pa = Some (iso_date (toordinal now - N) @ ''T00:00:00Z'')"
      unfolding get_date_range_iso_def
      by (simp add: side del: strftime.simps split: sum.splits if_splits)
  }
  {
    assume "\<not> truthy_str end_date
          \<and> get_date_range_iso strptime now days_ago_start (Some N) start_date end_date = Inr (pa, pb)"
    then show "pb = Some (iso_date (toordinal now - N) @ ''T23:59:59Z'')"
      unfolding get_date_range_iso_def
      by (simp add: side del: strftime.simps split: sum.splits if_splits)
  }
  show "get_date_range_iso strptime now (Some N) (Some N) None None
           = Inr (Some (iso_date (toordinal now - N) @ ''T00:00:00Z''),
                  Some (iso_date (toordinal now - N) @ ''T23:59:59Z''))"
    unfolding get_date_range_iso_def
    by (simp add: side truthy_str_def del: strftime.simps)
qed

theorem relative_offset_bounds_witness:
  "get_date_range_iso no_strptime example_now (Some 7) (Some 7) None None
     = Inr (Some (iso_date (toordinal example_now - 7) @ ''T00:00:00Z''),
            Some (iso_date (toordinal example_now - 7) @ ''T23:59:59Z''))
   \<and> iso_date (toordinal example_now - 7) = ''2026-10-28''"
proof -
  have h: "(0::int) < 7" "364878 \<le> toordinal example_now - 7" "toordinal example_now \<le> 3652059"
    by (simp_all add: example_now_def)
  have d: "iso_date (toordinal example_now - 7) = ''2026-10-28''"
    by code_simp
  from relative_offset_bounds [OF h, where strptime = no_strptime] d
  show ?thesis by blast
qed

text \<open>
  Before year 1000 the year has fewer than four digits: 400000 days before 2026-11-04 is
  6 September 931, and the start bound is \<open>931-09-06T00:00:00Z\<close>.
\<close>

lemma relative_start_before_year_1000:
  "get_date_range_iso no_strptime example_now (Some 400000) None None None
     = Inr (Some ''931-09-06T00:00:00Z'', None)"
  by code_simp

text \<open>
  C10. An offset of exactly 0 days is false for \<open>elif days_ago_start:\<close>, so on either side
  (with no absolute date there) the call behaves as the call without the offset, and a
  returned bound on that side is absent.
\<close>

theorem zero_offset_is_absent:
  "(\<not> truthy_str start_date \<longrightarrow>
      get_date_range_iso strptime now (Some 0) days_ago_end start_date end_date
        = get_date_range_iso strptime now None days_ago_end start_date end_date
      \<and> (\<forall>pa pb. get_date_range_iso strptime now (Some 0) days_ago_end start_date end_date
                    = Inr (pa, pb) \<longrightarrow> pa = None))
   \<and> (\<not> truthy_str end_date \<longrightarrow>
      get_date_range_iso strptime now days_ago_start (Some 0) start_date end_date
        = get_date_range_iso strptime now days_ago_start None start_date end_date
      \<and> (\<forall>pa pb. get_date_range_iso strptime now days_ago_start (Some 0) start_date end_date
                    = Inr (pa, pb) \<longrightarrow> pb = None))"
  unfolding get_date_range_iso_def
  by (auto simp: truthy_int_def split: sum.splits if_splits)

theorem zero_offset_is_absent_witness:
  "get_date_range_iso no_strptime example_now (Some 0) (Some 7) None None
     = get_date_range_iso no_strptime example_now None (Some 7) None None
   \<and> get_date_range_iso no_strptime example_now (Some 7) (Some 0) None None
     = get_date_range_iso no_strptime example_now (Some 7) None None None
   \<and> get_date_range_iso no_strptime example_now (Some 0) (Some 0) None None = Inr (None, None)"
proof -
  have h: "\<not> truthy_str None" by (simp add: truthy_str_def)
  have z: "get_date_range_iso no_strptime example_now (Some 0) (Some 0) None None = Inr (None, None)"
    by code_simp
  from zero_offset_is_absent [of None no_strptime example_now "Some 7" None "Some 7"] h z
  show ?thesis by blast
qed

section \<open>Properties of the Video Search Aggregator\<close>

lemma sort_reverse_descending: "sorted_wrt (\<lambda>a b. key b \<le> key a) (sort_reverse key xs)"
proof -
  have "sorted (map key (sort_key key (rev xs)))" by (rule sorted_sort_key)
  then have "sorted_wrt (\<lambda>a b. key a \<le> key b) (sort_key key (rev xs))"
    by (simp only: sorted_map)
  then show ?thesis
    unfolding sort_reverse_def by (simp only: sorted_wrt_rev)
qed



lemma sort_reverse_stable:
  "filter (\<lambda>x. key x = v) (sort_reverse key xs) = filter (\<lambda>x. key x = v) xs"
proof -
  have "filter (\<lambda>x. key x = v) (sort_reverse key xs)
      = rev (filter (\<lambda>x. key x = v) (sort_key key (rev xs)))"
    by (simp add: sort_reverse_def rev_filter)
  also have "\<dots> = rev (filter (\<lambda>x. key x = v) (rev xs))"
    by (simp only: filter_sort [symmetric] sort_key_stable)
  also have "\<dots> = filter (\<lambda>x. key x = v) xs"
    by (simp add: rev_filter)
  finally show ?thesis .
qed












section \<open>Properties of the Comment Ranker\<close>

lemma slice_to_take: "0 \<le> n \<Longrightarrow> slice_to xs n = take (nat n) xs"
  by (simp add: slice_to_def)

lemma comment_page_Inr:
  assumes "comment_page yt v limit k comments fetched token = Inr (comments', fetched', token')"
  shows "\<exists>p r. commentThreads_list yt k p = Inr r
               \<and> thread_maxResults p = min 100 (limit - fetched)
               \<and> thread_pageToken p = token
               \<and> comments' = comments @ map (comment_data_of v) (thread_items r)
               \<and> fetched' = fetched + int (length (thread_items r))
               \<and> token' = thread_nextPageToken r"
proof -
  define p where "p = \<lparr> thread_part = ''snippet,replies'', thread_videoId = v,
                     thread_maxResults = min 100 (limit - fetched), thread_order = ''relevance'',
                     thread_pageToken = token \<rparr>"
  have m: "thread_maxResults p = min 100 (limit - fetched)" "thread_pageToken p = token"
    by (simp_all add: p_def)
  from assms have cp:
    "(case commentThreads_list yt k p of
        Inl e \<Rightarrow> Inl e
      | Inr response \<Rightarrow>
          Inr (comments @ map (comment_data_of v) (thread_items response),
               fetched + int (length (thread_items response)),
               thread_nextPageToken response)) = Inr (comments', fetched', token')"
    unfolding comment_page_def Let_def p_def .
  then obtain r where r: "commentThreads_list yt k p = Inr r"
    by (cases "commentThreads_list yt k p") simp_all
  with cp m show ?thesis by auto
qed

text \<open>
  While \<open>total_fetched\<close> counts the accumulated comments, and no page holds more threads
  than its request asked for, the loop leaves with at most \<open>limit\<close> comments.
\<close>

lemma comment_loop_bound:
  "comment_loop yt v limit k comments fetched token = Some res \<Longrightarrow>
   int (length comments) = fetched
   \<and> (\<forall>k p r. 0 \<le> thread_maxResults p \<and> commentThreads_list yt k p = Inr r
               \<longrightarrow> int (length (thread_items r)) \<le> thread_maxResults p)
   \<longrightarrow> int (length (fst res)) \<le> max fetched limit"
proof (induction rule: comment_loop.raw_induct [rotated 1, consumes 1, case_names step])
  case (step loop yt v limit k comments fetched token res)
  note body = step.hyps
  show ?case
  proof
    assume a: "int (length comments) = fetched
      \<and> (\<forall>k p r. 0 \<le> thread_maxResults p \<and> commentThreads_list yt k p = Inr r
               \<longrightarrow> int (length (thread_items r)) \<le> thread_maxResults p)"
    from a have inv: "int (length comments) = fetched" by (rule conjunct1)
    from a have pages: "\<forall>k p r. 0 \<le> thread_maxResults p \<and> commentThreads_list yt k p = Inr r
               \<longrightarrow> int (length (thread_items r)) \<le> thread_maxResults p"
      by (rule conjunct2)
    show "int (length (fst res)) \<le> max fetched limit"
    proof (cases "fetched < limit")
      case False
      with body inv show ?thesis by auto
    next
      case True
      show ?thesis
      proof (cases "comment_page yt v limit k comments fetched token")
        case (Inl e)
        with True body inv show ?thesis by auto
      next
        case (Inr st)
        obtain comments' fetched' token' where st: "st = (comments', fetched', token')"
          by (cases st)
        from comment_page_Inr [OF Inr [unfolded st]] obtain p r where
          r: "commentThreads_list yt k p = Inr r"
          and m: "thread_maxResults p = min 100 (limit - fetched)"
          and c': "comments' = comments @ map (comment_data_of v) (thread_items r)"
          and t': "fetched' = fetched + int (length (thread_items r))"
          by blast
        have "0 \<le> thread_maxResults p" using m True by simp
        with pages r have pg: "int (length (thread_items r)) \<le> thread_maxResults p" by blast
        have inv': "int (length comments') = fetched'" using inv by (simp add: c' t')
        have len: "fetched' \<le> limit" using pg m by (simp add: t')
        show ?thesis
        proof (cases "truthy_str token'")
          case False
          with True Inr st body have "fst res = comments'" by auto
          with len inv' show ?thesis by simp
        next
          case tok: True
          with True Inr st body have
            "loop yt v limit (Suc k) comments' fetched' token' = Some res"
            by simp
          from step.IH [OF this] inv' pages have "int (length (fst res)) \<le> max fetched' limit"
            by blast
          with len show ?thesis by simp
        qed
      qed
    qed
  qed
qed

lemma comment_loop_after:
  "comment_state_after yt v limit n = Some (comments, fetched, token)
   \<Longrightarrow> comment_loop yt v limit 0 [] 0 None = comment_loop yt v limit n comments fetched token"
proof (induction n arbitrary: comments fetched token)
  case 0
  then show ?case by simp
next
  case (Suc n)
  from Suc.prems obtain c0 n0 t0 where
    s: "comment_state_after yt v limit n = Some (c0, n0, t0)"
    and c: "n0 < limit"
    and p: "comment_page yt v limit n c0 n0 t0 = Inr (comments, fetched, token)"
    and t: "truthy_str token"
    by (auto split: option.splits if_splits sum.splits)
  have "comment_loop yt v limit 0 [] 0 None = comment_loop yt v limit n c0 n0 t0"
    by (rule Suc.IH [OF s])
  also have "\<dots> = comment_loop yt v limit (Suc n) comments fetched token"
    by (subst comment_loop.simps) (simp add: c p t)
  finally show ?case .
qed


text \<open>The loop leaves without an error when the target is reached or a page has no next page
  token; the ranker returns then.\<close>

lemma ranker_returns_when_done:
  assumes "comment_state_after yt v (fetch_limit N) n = Some (comments, fetched, token)"
    and "\<not> fetched < fetch_limit N
         \<or> (\<exists>comments' fetched' token'.
              comment_page yt v (fetch_limit N) n comments fetched token = Inr (comments', fetched', token')
              \<and> \<not> truthy_str token')"
  shows "\<exists>cs. get_top_comments_by_likes yt v N = Some (Inr cs)"
proof -
  have "comment_loop yt v (fetch_limit N) 0 [] 0 None
      = comment_loop yt v (fetch_limit N) n comments fetched token"
    by (rule comment_loop_after [OF assms(1)])
  moreover have "\<exists>cands. comment_loop yt v (fetch_limit N) n comments fetched token = Some (cands, None)"
    using assms(2) by (subst comment_loop.simps) auto
  ultimately show ?thesis by (auto simp: get_top_comments_by_likes_def)
qed




text \<open>
  C4. For a requested count \<open>N \<ge> 0\<close>, a sequence the ranker returns has at most \<open>N\<close>
  comments and is in descending order of like count. It is the first \<open>N\<close> of the sorted
  candidates, and the candidates are what the loop has accumulated with the target
  \<open>min(5 * N, 100)\<close>: the loop asks for another page only while fewer threads than the
  target have been fetched, so when no page holds more threads than its request asked for,
  there are at most \<open>min(5 * N, 100)\<close> candidates.
\<close>

theorem top_comments_bounded_sorted:
  assumes "0 \<le> N" and "get_top_comments_by_likes yt v N = Some (Inr cs)"
  shows "int (length cs) \<le> N
       \<and> sorted_wrt (\<lambda>a b. c_like_count b \<le> c_like_count a) cs
       \<and> (\<exists>candidates raised.
            comment_loop yt v (min (5 * N) 100) 0 [] 0 None = Some (candidates, raised)
            \<and> cs = take (nat N) (sort_reverse c_like_count candidates)
            \<and> ((\<forall>k p r. 0 \<le> thread_maxResults p \<and> commentThreads_list yt k p = Inr r
                     \<longrightarrow> int (length (thread_items r)) \<le> thread_maxResults p)
               \<longrightarrow> int (length candidates) \<le> min (5 * N) 100))"
proof -
  have lim: "fetch_limit N = min (5 * N) 100" by (simp add: fetch_limit_def mult.commute)
  from assms(2) obtain candidates raised where
    loop: "comment_loop yt v (min (5 * N) 100) 0 [] 0 None = Some (candidates, raised)"
    and cs: "cs = slice_to (sort_reverse c_like_count candidates) N"
    unfolding get_top_comments_by_likes_def lim
    by (auto split: option.splits sum.splits)
  have tk: "cs = take (nat N) (sort_reverse c_like_count candidates)"
    using assms(1) by (simp add: cs slice_to_take)
  have a: "int (length cs) \<le> N" using assms(1) by (simp add: tk)
  have b: "sorted_wrt (\<lambda>a b. c_like_count b \<le> c_like_count a) cs"
    unfolding tk by (rule sorted_wrt_take) (rule sort_reverse_descending)
  have c: "int (length candidates) \<le> min (5 * N) 100"
    if "\<forall>k p r. 0 \<le> thread_maxResults p \<and> commentThreads_list yt k p = Inr r
                     \<longrightarrow> int (length (thread_items r)) \<le> thread_maxResults p"
  proof -
    from comment_loop_bound [OF loop] that
    have "int (length (fst (candidates, raised))) \<le> max 0 (min (5 * N) 100)" by simp
    with assms(1) show ?thesis by simp
  qed
  from loop tk a b c show ?thesis by blast
qed

theorem top_comments_bounded_sorted_witness:
  "map_option (map_sum id (map c_like_count)) (get_top_comments_by_likes obedient_youtube ''v'' 2)
     = Some (Inr [7, 5])
   \<and> int (length (projr (the (get_top_comments_by_likes obedient_youtube ''v'' 2)))) \<le> 2
   \<and> sorted_wrt (\<lambda>a b. c_like_count b \<le> c_like_count a)
        (projr (the (get_top_comments_by_likes obedient_youtube ''v'' 2)))
   \<and> int (length (fst (the (comment_loop obedient_youtube ''v'' (min (5 * 2) 100) 0 [] 0 None))))
        \<le> min (5 * 2) 100"
proof -
  have e: "map_option (map_sum id (map c_like_count)) (get_top_comments_by_likes obedient_youtube ''v'' 2)
             = Some (Inr [7, 5])"
    by code_simp
  then obtain r where r: "get_top_comments_by_likes obedient_youtube ''v'' 2 = Some r"
    by auto
  with e obtain cs where "r = Inr cs" by (cases r) auto
  with r have cs: "get_top_comments_by_likes obedient_youtube ''v'' 2 = Some (Inr cs)" by simp
  have h: "\<forall>k p r. 0 \<le> thread_maxResults p \<and> commentThreads_list obedient_youtube k p = Inr r
             \<longrightarrow> int (length (thread_items r)) \<le> thread_maxResults p"
    by (auto simp: obedient_youtube_def)
  have z: "(0::int) \<le> 2" by simp
  from top_comments_bounded_sorted [OF z cs] h e cs show ?thesis by auto
qed

section \<open>Properties of the Report Exporter\<close>

lemma for_each_Inr:
  "(\<And>x. x \<in> set xs \<Longrightarrow> f x = Inr (g x)) \<Longrightarrow> for_each f xs = Inr (map g xs)"
  by (induction xs) simp_all

lemma list_index_member:
  "x \<in> set xs \<Longrightarrow> \<exists>i. list_index xs x = Inr i \<and> i < length xs \<and> xs ! i = x"
proof (induction xs)
  case Nil
  then show ?case by simp
next
  case (Cons y ys)
  show ?case
  proof (cases "y = x")
    case True
    then show ?thesis by simp
  next
    case False
    with Cons.prems have "x \<in> set ys" by simp
    from Cons.IH [OF this] obtain i where "list_index ys x = Inr i" "i < length ys" "ys ! i = x"
      by blast
    with False show ?thesis by simp
  qed
qed

lemma length_enumerate_from: "length (enumerate_from i xs) = length xs"
  by (induction xs arbitrary: i) simp_all

text \<open>Every video of the report contributes one row per comment, and no step raises.\<close>

lemma video_rows_member:
  assumes "video \<in> set (videos res)"
  shows "\<exists>rows. video_rows res video = Inr rows \<and> length rows = length (top_comments video)"
proof -
  from list_index_member [OF assms] obtain pos where
    pos: "list_index (videos res) video = Inr pos" by blast
  define row :: "int \<times> comment_data \<Rightarrow> detail_row" where "row = (\<lambda>(i, comment).
              \<lparr> Video_Rank = int pos + 1,
                    Video_ID = video_id (video_info video),
                    Video_Title = title (video_info video),
                    Channel_Name = channel (video_info video),
                    Video_Views = view_count (video_info video),
                    Video_Likes = like_count (video_info video),
                    Video_Published = published_at (video_info video),
                    Comment_Rank = i,
                    Comment_ID = comment_id comment,
                    Comment_Author = author comment,
                    Comment_Text = comment_text comment,
                    Comment_Likes = c_like_count comment,
                    Comment_Published = c_published_at comment,
                    Reply_Count = reply_count comment \<rparr>)"
  have "video_rows res video = Inr (map row (enumerate_from 1 (top_comments video)))"
    unfolding video_rows_def
    by (rule for_each_Inr) (auto simp: pos row_def)
  then show ?thesis by (simp add: length_enumerate_from)
qed

lemma excel_data_rows:
  "\<exists>rows. excel_data res = Inr rows
          \<and> length rows = sum_list (map (length \<circ> top_comments) (videos res))"
proof -
  have "video_rows res video = Inr (projr (video_rows res video))
        \<and> length (projr (video_rows res video)) = length (top_comments video)"
    if "video \<in> set (videos res)" for video
    using video_rows_member [OF that] by auto
  then have f: "for_each (video_rows res) (videos res)
             = Inr (map (\<lambda>video. projr (video_rows res video)) (videos res))"
    and l: "map (\<lambda>video. length (projr (video_rows res video))) (videos res)
             = map (length \<circ> top_comments) (videos res)"
    by (auto intro: for_each_Inr)
  have "length (concat (map (\<lambda>video. projr (video_rows res video)) (videos res)))
        = sum_list (map (length \<circ> top_comments) (videos res))"
    by (simp add: length_concat comp_def l [unfolded comp_def])
  then show ?thesis by (simp add: excel_data_def f)
qed

lemma video_overview_rows:
  "\<exists>overview. video_overview res = Inr overview \<and> length overview = length (videos res)"
proof -
  have "\<exists>row. (case list_index (videos res) video of
            Inl e \<Rightarrow> Inl e
          | Inr pos \<Rightarrow>
              Inr \<lparr> Rank = int pos + 1,
                    Overview_Video_ID = video_id (video_info video),
                    Title = title (video_info video),
                    Channel = channel (video_info video),
                    Views = view_count (video_info video),
                    Likes = like_count (video_info video),
                    Comments_Count = comment_count (video_info video),
                    Published = published_at (video_info video),
                    Comments_Extracted = comments_extracted video \<rparr>) = Inr row"
    if "video \<in> set (videos res)" for video
    using list_index_member [OF that] by auto
  then have "\<exists>g. \<forall>video \<in> set (videos res). (case list_index (videos res) video of
            Inl e \<Rightarrow> Inl e
          | Inr pos \<Rightarrow>
              Inr \<lparr> Rank = int pos + 1,
                    Overview_Video_ID = video_id (video_info video),
                    Title = title (video_info video),
                    Channel = channel (video_info video),
                    Views = view_count (video_info video),
                    Likes = like_count (video_info video),
                    Comments_Count = comment_count (video_info video),
                    Published = published_at (video_info video),
                    Comments_Extracted = comments_extracted video \<rparr>) = Inr (g video)"
    by metis
  then obtain g where "video_overview res = Inr (map g (videos res))"
    unfolding video_overview_def by (auto intro: for_each_Inr)
  then show ?thesis by simp
qed

text \<open>
  C8. When the comment lists of the report's videos hold no comment in total, the
  exporter returns \<open>None\<close> and the files are as they were. When they hold at least one, it
  returns the path (the file name it computed) and the files hold, at that path, the
  workbook of three sheets, the detail sheet with one row per comment and the overview
  with one row per video; no step raises.
\<close>

theorem save_to_excel_no_data_or_written:
  "(sum_list (map (length \<circ> top_comments) (videos res)) = 0 \<longrightarrow>
      save_to_excel files now res filename = Inr (None, files))
   \<and> (0 < sum_list (map (length \<circ> top_comments) (videos res)) \<longrightarrow>
      (\<exists>rows overview.
         save_to_excel files now res filename
           = Inr (Some (excel_filename now filename),
                  files(excel_filename now filename \<mapsto>
                    [Top_Comments rows, Summary (summary_data res rows), Video_Overview overview]))
         \<and> length rows = sum_list (map (length \<circ> top_comments) (videos res))
         \<and> length overview = length (videos res)))"
proof -
  obtain rows where rows: "excel_data res = Inr rows"
    and len: "length rows = sum_list (map (length \<circ> top_comments) (videos res))"
    using excel_data_rows by blast
  obtain overview where ov: "video_overview res = Inr overview"
    and lo: "length overview = length (videos res)"
    using video_overview_rows by blast
  show ?thesis
  proof (intro conjI impI)
    assume "sum_list (map (length \<circ> top_comments) (videos res)) = 0"
    with len have "rows = []" by simp
    then show "save_to_excel files now res filename = Inr (None, files)"
      by (simp add: save_to_excel_def rows)
  next
    assume "0 < sum_list (map (length \<circ> top_comments) (videos res))"
    with len have "0 < length rows" by simp
    then have "rows \<noteq> []" by simp
    then have "save_to_excel files now res filename
           = Inr (Some (excel_filename now filename),
                  files(excel_filename now filename \<mapsto>
                    [Top_Comments rows, Summary (summary_data res rows), Video_Overview overview]))"
      by (simp add: save_to_excel_def rows ov Let_def)
    with len lo show "\<exists>rows overview.
         save_to_excel files now res filename
           = Inr (Some (excel_filename now filename),
                  files(excel_filename now filename \<mapsto>
                    [Top_Comments rows, Summary (summary_data res rows), Video_Overview overview]))
         \<and> length rows = sum_list (map (length \<circ> top_comments) (videos res))
         \<and> length overview = length (videos res)"
      by blast
  qed
qed

theorem save_to_excel_no_data_or_written_witness:
  "save_to_excel Map.empty example_now (example_report [example_result ''a'' []]) None
     = Inr (None, Map.empty)
   \<and> map_sum id fst
        (save_to_excel Map.empty example_now
           (example_report [example_result ''a'' [comment_data_of ''a'' (example_thread ''c1'' 3)]])
           None)
     = Inr (Some ''youtube_top_comments_20261104_090507.xlsx'')"
proof -
  have h0: "sum_list (map (length \<circ> top_comments)
              (videos (example_report [example_result ''a'' []]))) = 0"
    by (simp add: example_report_def example_result_def)
  have h1: "0 < sum_list (map (length \<circ> top_comments)
              (videos (example_report
                 [example_result ''a'' [comment_data_of ''a'' (example_thread ''c1'' 3)]])))"
    by (simp add: example_report_def example_result_def)
  have n: "excel_filename example_now None = ''youtube_top_comments_20261104_090507.xlsx''"
    by code_simp
  from save_to_excel_no_data_or_written
         [of "example_report [example_result ''a'' []]" Map.empty example_now None] h0
  have a: "save_to_excel Map.empty example_now (example_report [example_result ''a'' []]) None
     = Inr (None, Map.empty)"
    by blast
  from save_to_excel_no_data_or_written
         [of "example_report [example_result ''a'' [comment_data_of ''a'' (example_thread ''c1'' 3)]]"
            Map.empty example_now None] h1
  obtain w where "save_to_excel Map.empty example_now
           (example_report [example_result ''a'' [comment_data_of ''a'' (example_thread ''c1'' 3)]])
           None = Inr (Some (excel_filename example_now None), w)"
    by blast
  with a n show ?thesis by simp
qed

text \<open>
  C7. The rank of a row is computed as \<open>results['videos'].index(video) + 1\<close>, the position
  of the first entry equal to the video, while the loop is at the video's own position.
  For a report that lists the same video result twice, the second entry is at position 2,
  and both its detail row and its overview row carry rank 1.
\<close>

theorem duplicate_video_ranks:
  "map_sum id (map Video_Rank)
     (excel_data (example_report
        [example_result ''a'' [comment_data_of ''a'' (example_thread ''c1'' 3)],
         example_result ''a'' [comment_data_of ''a'' (example_thread ''c1'' 3)]]))
     = Inr [1, 1]
   \<and> map_sum id (map Rank)
     (video_overview (example_report
        [example_result ''a'' [comment_data_of ''a'' (example_thread ''c1'' 3)],
         example_result ''a'' [comment_data_of ''a'' (example_thread ''c1'' 3)]]))
     = Inr [1, 1]"
  by code_simp

end
